theory Spec2Isabelle
  imports Main
begin

section \<open>JavaScript strings\<close>

text \<open>
  Strings are character lists. \<open>toLowerCase\<close> is modelled on the ASCII letters,
  \<open>includes_str\<close> (String.prototype.includes) is contiguous substring containment, \<open>trim\<close> strips ASCII white space
  from both ends and \<open>join\<close> is \<open>Array.prototype.join\<close>.
\<close>

definition lower_char :: "char \<Rightarrow> char" where
  "lower_char c =
     (let n = (of_char c :: nat) in if 65 \<le> n \<and> n \<le> 90 then char_of (n + 32) else c)"

definition toLowerCase :: "string \<Rightarrow> string" where
  "toLowerCase s = map lower_char s"

fun startsWith :: "string \<Rightarrow> string \<Rightarrow> bool" where
  "startsWith s [] = True"
| "startsWith [] (k # ks) = False"
| "startsWith (c # cs) (k # ks) = (c = k \<and> startsWith cs ks)"

fun includes_str :: "string \<Rightarrow> string \<Rightarrow> bool" where
  "includes_str [] k = (k = [])"
| "includes_str (c # cs) k = (startsWith (c # cs) k \<or> includes_str cs k)"

definition is_space :: "char \<Rightarrow> bool" where
  "is_space c = ((of_char c :: nat) \<in> {9, 10, 11, 12, 13, 32})"

definition trim :: "string \<Rightarrow> string" where
  "trim s = rev (dropWhile is_space (rev (dropWhile is_space s)))"

fun join :: "string \<Rightarrow> string list \<Rightarrow> string" where
  "join sep [] = []"
| "join sep [x] = x"
| "join sep (x # y # ys) = x @ sep @ join sep (y # ys)"

section \<open>Keyword matching (the callback of \<open>page.$$eval\<close>)\<close>

datatype match_type = MatchAll | MatchEach

text \<open>
  Lines 661 to 667 of the scraper: the text is lowercased, an empty text matches nothing,
  mode \<open>all\<close> is \<open>keywords.every\<close> and every other mode is \<open>keywords.some\<close>.
\<close>

definition keyword_match :: "string list \<Rightarrow> match_type \<Rightarrow> string \<Rightarrow> bool" where
  "keyword_match keywords matchType textToSearch =
     (let lowerCaseTextToSearch = toLowerCase textToSearch in
      if lowerCaseTextToSearch \<noteq> [] then
        (if matchType = MatchAll
         then list_all (\<lambda>keyword. includes_str lowerCaseTextToSearch keyword) keywords
         else list_ex (\<lambda>keyword. includes_str lowerCaseTextToSearch keyword) keywords)
      else False)"

section \<open>Instants and timestamp strings\<close>

text \<open>
  A \<open>Date\<close> is its number of milliseconds, counted on the local wall clock of a zone
  with a fixed offset, so that local midnight is a multiple of one day and
  \<open>setDate(getDate() + 1)\<close> adds one day. One evaluation of the scheduler reads the
  clock once.
\<close>

type_synonym instant = int

definition day_ms :: int where
  "day_ms = 86400000"

text \<open>\<open>date.setHours(h, m, 0, 0)\<close>\<close>

definition setHours :: "instant \<Rightarrow> int \<Rightarrow> int \<Rightarrow> instant" where
  "setHours date h m = date - date mod day_ms + h * 3600000 + m * 60000"

text \<open>\<open>date.setDate(date.getDate() + 1)\<close>\<close>

definition nextDay :: "instant \<Rightarrow> instant" where
  "nextDay date = date + day_ms"

text \<open>
  The two fields \<open>matchedOn\<close> and \<open>datetime_changed\<close> are strings. A string is kept
  as the formatter that produced it and the instant it shows: \<open>toISOString\<close> shows
  milliseconds and \<open>new Date\<close> reads it back exactly, \<open>toLocaleString\<close> shows whole
  seconds in the format of the locale and is taken to be read back by \<open>new Date\<close> as
  that second (as it is for the format of \<open>en-US\<close>), and any
  other text of a cache file gives an invalid date (\<open>None\<close>, the \<open>NaN\<close> of
  \<open>getTime\<close>).
\<close>

datatype date_string = ISOString instant | LocaleString int | OtherString string

definition toISOString :: "instant \<Rightarrow> date_string" where
  "toISOString t = ISOString t"

definition toLocaleString :: "instant \<Rightarrow> date_string" where
  "toLocaleString t = LocaleString (t div 1000)"

fun new_Date :: "date_string \<Rightarrow> instant option" where
  "new_Date (ISOString t) = Some t"
| "new_Date (LocaleString s) = Some (s * 1000)"
| "new_Date (OtherString x) = None"

fun is_ISO_8601 :: "date_string \<Rightarrow> bool" where
  "is_ISO_8601 (ISOString t) = True"
| "is_ISO_8601 (LocaleString s) = False"
| "is_ISO_8601 (OtherString x) = False"

section \<open>Type definitions of the scraper\<close>

datatype LeadStatus = PotentialLead | AlreadyWaitlisted | TransitionedToWaitlisted

record StatusHistoryItem =
  datetime_changed :: date_string
  new_status :: LeadStatus

record LeadLink =
  href :: "string option"
  link_text :: string

record MatchedLead =
  lead_id :: string
  matchedOn :: date_string
  links :: "LeadLink list"
  content :: string
  currentStatus :: LeadStatus
  statusHistory :: "StatusHistoryItem list"

record Cache =
  matchedLeads :: "MatchedLead list"

section \<open>Helper functions\<close>

function string_of_nat :: "nat \<Rightarrow> string" where
  "string_of_nat n =
     (if n < 10 then [char_of (48 + n)]
      else string_of_nat (n div 10) @ [char_of (48 + n mod 10)])"
  by pat_completeness auto
termination
  by (relation "measure (\<lambda>n. n)") auto

declare string_of_nat.simps [simp del]

definition string_of_int :: "int \<Rightarrow> string" where
  "string_of_int i =
     (if i < 0 then CHR ''-'' # string_of_nat (nat (- i)) else string_of_nat (nat i))"

text \<open>The remainder operator \<open>%\<close> of JavaScript takes the sign of the dividend.\<close>

definition js_rem :: "int \<Rightarrow> int \<Rightarrow> int" where
  "js_rem a b = (if a < 0 then - ((- a) mod \<bar>b\<bar>) else a mod \<bar>b\<bar>)"

text \<open>\<open>formatElapsedTime(ms)\<close>; \<open>None\<close> is \<open>NaN\<close>, which fails every comparison.\<close>

fun formatElapsedTime :: "int option \<Rightarrow> string" where
  "formatElapsedTime None = ''NaN second(s)''"
| "formatElapsedTime (Some ms) =
     (let totalSeconds = ms div 1000;
          days = totalSeconds div 86400;
          hours = js_rem totalSeconds 86400 div 3600;
          minutes = js_rem totalSeconds 3600 div 60;
          seconds = js_rem totalSeconds 60;
          parts = (if days > 0 then [string_of_int days @ '' day(s)''] else [])
                @ (if hours > 0 then [string_of_int hours @ '' hour(s)''] else [])
                @ (if minutes > 0 then [string_of_int minutes @ '' minute(s)''] else [])
                @ [string_of_int seconds @ '' second(s)'']
      in join '', '' parts)"

text \<open>
  Reading an elapsed-time text back, to say what the text carries: each run of digits
  followed by a space and the first letter of \<open>day(s)\<close>, \<open>hour(s)\<close>, \<open>minute(s)\<close> or
  \<open>second(s)\<close> counts for that many seconds. The scraper has no such function.
\<close>

definition is_digit :: "char \<Rightarrow> bool" where
  "is_digit c = (48 \<le> (of_char c :: nat) \<and> (of_char c :: nat) \<le> 57)"

definition digit_val :: "char \<Rightarrow> nat" where
  "digit_val c = of_char c - 48"

definition unit_seconds :: "char \<Rightarrow> nat option" where
  "unit_seconds u =
     (if u = CHR ''d'' then Some 86400
      else if u = CHR ''h'' then Some 3600
      else if u = CHR ''m'' then Some 60
      else if u = CHR ''s'' then Some 1
      else None)"

fun read_elapsed_from :: "string \<Rightarrow> nat \<Rightarrow> nat \<Rightarrow> nat" where
  "read_elapsed_from (c # u # cs) cur secs =
     (case (if c = CHR '' '' then unit_seconds u else None) of
        Some k \<Rightarrow> read_elapsed_from cs 0 (secs + cur * k)
      | None \<Rightarrow>
          if is_digit c then read_elapsed_from (u # cs) (10 * cur + digit_val c) secs
          else read_elapsed_from (u # cs) cur secs)"
| "read_elapsed_from [c] cur secs = secs"
| "read_elapsed_from [] cur secs = secs"

definition read_elapsed_seconds :: "string \<Rightarrow> int" where
  "read_elapsed_seconds s = int (read_elapsed_from s 0 0)"

subsection \<open>The cache file\<close>

text \<open>
  The file at \<open>CACHE_FILE_PATH\<close>: its text if it exists, and whether \<open>fs.writeFile\<close>
  succeeds on it. \<open>JSON.stringify\<close> and \<open>JSON.parse\<close> are parameters; a parse that
  throws is \<open>None\<close>, and a text that parses to a value of another shape than a cache
  is \<open>OtherJson\<close> (the cast \<open>as Cache\<close> checks nothing).
\<close>

record cache_file =
  file_text :: "string option"
  writable :: bool

datatype json_value = CacheJson Cache | OtherJson

definition writeCache :: "(Cache \<Rightarrow> string) \<Rightarrow> cache_file \<Rightarrow> Cache \<Rightarrow> cache_file" where
  "writeCache stringify file cache =
     (if writable file then file\<lparr>file_text := Some (stringify cache)\<rparr> else file)"

definition initializeCache ::
  "(string \<Rightarrow> json_value option) \<Rightarrow> (Cache \<Rightarrow> string) \<Rightarrow> cache_file
     \<Rightarrow> json_value \<times> cache_file" where
  "initializeCache parse stringify file =
     (let recover = (let initialCache = \<lparr>matchedLeads = []\<rparr>
                     in (CacheJson initialCache, writeCache stringify file initialCache))
      in case file_text file of
           None \<Rightarrow> recover
         | Some data \<Rightarrow>
             if trim data = [] then recover
             else (case parse data of None \<Rightarrow> recover | Some v \<Rightarrow> (v, file)))"

definition matchedDate_today :: "instant \<Rightarrow> MatchedLead \<Rightarrow> bool" where
  "matchedDate_today now lead =
     (let today = setHours now 0 0; tomorrow = nextDay today in
      case new_Date (matchedOn lead) of
        None \<Rightarrow> False
      | Some matchedDate \<Rightarrow>
          matchedDate \<ge> today \<and> matchedDate < tomorrow \<and> currentStatus lead = PotentialLead)"

definition getTodaysMatches :: "instant \<Rightarrow> Cache \<Rightarrow> MatchedLead list" where
  "getTodaysMatches now cache = filter (matchedDate_today now) (matchedLeads cache)"

definition getWindowTimes :: "int \<Rightarrow> int \<Rightarrow> int \<Rightarrow> int \<Rightarrow> instant \<Rightarrow> instant \<times> instant" where
  "getWindowTimes START_HOUR START_MINUTE END_HOUR END_MINUTE date =
     (setHours date START_HOUR START_MINUTE, setHours date END_HOUR END_MINUTE)"

section \<open>The scraping cycle\<close>

subsection \<open>What the page shows\<close>

text \<open>
  What the callback of \<open>page.$$eval\<close> reads of one \<open>article\<close> element: its \<open>id\<close>
  attribute, its anchors, its outer HTML, the text of its status span if there is one,
  the texts of its \<open>h2\<close>, of the \<open>.text-body-emphasis\<close> elements of the document, of its
  \<open>h4\<close> and \<open>h4 + p\<close> elements, and its own text.
\<close>

record anchor =
  a_href :: string
  a_innerText :: string

record article =
  art_id :: string
  art_anchors :: "anchor list"
  art_outerHTML :: string
  art_statusSpan :: "string option"
  art_h2 :: "string list"
  doc_emphasis :: "string list"
  art_h4 :: "string list"
  art_h4_p :: "string list"
  art_textContent :: string

record scrapedArticle =
  s_id :: string
  s_hasMatch :: bool
  s_status :: "LeadStatus option"
  s_links :: "LeadLink list"
  s_content :: string

text \<open>
  The callback, for one article. \<open>None\<close> is the \<open>TypeError\<close> of reading \<open>textContent\<close>
  of a missing first \<open>h2\<close>. The element \<open>acceptDomElement\<close>, only clicked later on, is
  left out.
\<close>

definition scrape :: "string list \<Rightarrow> match_type \<Rightarrow> article \<Rightarrow> scrapedArticle option" where
  "scrape keywords matchType art =
     (let ident = (if art_id art \<noteq> [] then art_id art
                   else (case art_anchors art of
                           primaryLink # rest \<Rightarrow> a_href primaryLink
                         | [] \<Rightarrow> art_outerHTML art));
          found = (\<lambda>hasMatch status.
                     Some \<lparr>s_id = ident, s_hasMatch = hasMatch, s_status = status,
                           s_links = (if hasMatch
                                      then map (\<lambda>a. \<lparr>href = Some (a_href a),
                                                        link_text = trim (a_innerText a)\<rparr>)
                                               (art_anchors art)
                                      else []),
                           s_content = trim (art_textContent art)\<rparr>)
      in if map_option trim (art_statusSpan art) = Some ''Waitlist''
         then found True (Some AlreadyWaitlisted)
         else (case art_h2 art of
                 [] \<Rightarrow> None
               | headingText # rest \<Rightarrow>
                   (let textToSearch = headingText @ join '' '' (doc_emphasis art)
                                       @ join '' '' (art_h4 art) @ join '' '' (art_h4_p art);
                        hasMatch = keyword_match keywords matchType textToSearch
                    in found hasMatch (if hasMatch then Some PotentialLead else None))))"

text \<open>\<open>leads.map\<close> over the articles: one throwing article rejects the whole evaluation.\<close>

fun scrape_all :: "string list \<Rightarrow> match_type \<Rightarrow> article list \<Rightarrow> scrapedArticle list option" where
  "scrape_all keywords matchType [] = Some []"
| "scrape_all keywords matchType (art # arts) =
     (case scrape keywords matchType art of
        None \<Rightarrow> None
      | Some a \<Rightarrow> map_option ((#) a) (scrape_all keywords matchType arts))"

subsection \<open>The loop over the scraped articles\<close>

text \<open>
  A call of \<open>sendEmailNotification(lead, elapsedTime)\<close> is recorded with its arguments;
  delivery is the transport's matter. Each pass of the loop reads the clock and takes
  one screenshot, which may throw.
\<close>

record notification =
  n_lead :: MatchedLead
  n_elapsedTime :: "string option"

record step_env =
  now :: instant
  screenshot_ok :: bool

record cycle_state =
  cache :: Cache
  sent :: "notification list"
  cacheUpdated :: bool
  newMatchFoundThisCycle :: bool

fun findIndex :: "('a \<Rightarrow> bool) \<Rightarrow> 'a list \<Rightarrow> nat option" where
  "findIndex P [] = None"
| "findIndex P (x # xs) = (if P x then Some 0 else map_option Suc (findIndex P xs))"

text \<open>\<open>transitionTime - initialTime\<close>, \<open>NaN\<close> when \<open>matchedOn\<close> is no date.\<close>

definition elapsedTimeMs :: "instant \<Rightarrow> date_string \<Rightarrow> int option" where
  "elapsedTimeMs t matched =
     (case (new_Date (toISOString t), new_Date matched) of
        (Some transitionTime, Some initialTime) \<Rightarrow> Some (transitionTime - initialTime)
      | _ \<Rightarrow> None)"

text \<open>
  The body of the \<open>for\<close> loop (lines 688 to 826). \<open>Inl\<close> is the state when the
  screenshot of line 700 throws; what the branch of a new potential lead does to the
  page sits in a \<open>try\<close> whose \<open>finally\<close> sends the notification.
\<close>

definition process_article :: "step_env \<Rightarrow> scrapedArticle \<Rightarrow> cycle_state \<Rightarrow> cycle_state + cycle_state" where
  "process_article env a st =
     (let leads = matchedLeads (cache st) in
      case findIndex (\<lambda>l. lead_id l = s_id a) leads of
        None \<Rightarrow>
          (case s_status a of
             None \<Rightarrow> Inr st
           | Some status \<Rightarrow>
               if \<not> s_hasMatch a then Inr st
               else if \<not> screenshot_ok env then Inl (st\<lparr>newMatchFoundThisCycle := True\<rparr>)
               else
                 (let nowISO = toLocaleString (now env);
                      newLead = \<lparr>lead_id = s_id a, matchedOn = nowISO, links = s_links a,
                                 content = s_content a, currentStatus = status,
                                 statusHistory = [\<lparr>datetime_changed = nowISO,
                                                   new_status = status\<rparr>]\<rparr>;
                      st' = st\<lparr>newMatchFoundThisCycle := True, cacheUpdated := True,
                               cache := \<lparr>matchedLeads = newLead # leads\<rparr>\<rparr>
                  in Inr (if currentStatus newLead = PotentialLead
                          then st'\<lparr>sent := sent st' @ [\<lparr>n_lead = newLead,
                                                          n_elapsedTime = None\<rparr>]\<rparr>
                          else st')))
      | Some existingLeadIndex \<Rightarrow>
          (let existingLead = leads ! existingLeadIndex in
           if currentStatus existingLead = PotentialLead \<and> s_status a = Some AlreadyWaitlisted
           then
             (let nowISO = toISOString (now env);
                  newStatus = TransitionedToWaitlisted;
                  existingLead' = existingLead
                    \<lparr>currentStatus := newStatus,
                     statusHistory := statusHistory existingLead
                       @ [\<lparr>datetime_changed = nowISO, new_status = newStatus\<rparr>]\<rparr>;
                  formattedElapsedTime =
                    formatElapsedTime (elapsedTimeMs (now env) (matchedOn existingLead))
              in Inr (st\<lparr>cacheUpdated := True, newMatchFoundThisCycle := True,
                         cache := \<lparr>matchedLeads = leads[existingLeadIndex := existingLead']\<rparr>,
                         sent := sent st @ [\<lparr>n_lead = existingLead',
                                             n_elapsedTime = Some formattedElapsedTime\<rparr>]\<rparr>))
           else Inr st))"

text \<open>The loop; the \<open>i\<close>-th pass runs in the environment \<open>env i\<close>.\<close>

fun for_loop ::
  "(nat \<Rightarrow> step_env) \<Rightarrow> nat \<Rightarrow> scrapedArticle list \<Rightarrow> cycle_state \<Rightarrow> cycle_state + cycle_state" where
  "for_loop env i [] st = Inr st"
| "for_loop env i (a # as) st =
     (case process_article (env i) a st of
        Inl thrown \<Rightarrow> Inl thrown
      | Inr st' \<Rightarrow> for_loop env (Suc i) as st')"

record cycle_result =
  r_newMatchFound :: bool
  r_cache :: Cache
  r_file :: cache_file
  r_sent :: "notification list"

text \<open>
  \<open>performScrapeCycle\<close>: a failed reload, a throwing callback or a throwing screenshot
  ends in the \<open>catch\<close> of line 834, which skips the write of the cache.
\<close>

definition performScrapeCycle ::
  "(Cache \<Rightarrow> string) \<Rightarrow> string list \<Rightarrow> match_type \<Rightarrow> bool \<Rightarrow> (nat \<Rightarrow> step_env)
     \<Rightarrow> article list \<Rightarrow> cache_file \<Rightarrow> Cache \<Rightarrow> cycle_result" where
  "performScrapeCycle stringify keywords matchType reload_ok env page file c =
     (let skipped = \<lparr>r_newMatchFound = False, r_cache = c, r_file = file, r_sent = []\<rparr> in
      if \<not> reload_ok then skipped
      else case scrape_all keywords matchType page of
        None \<Rightarrow> skipped
      | Some leadsOnPage \<Rightarrow>
          (case for_loop env 0 leadsOnPage
                  \<lparr>cache = c, sent = [], cacheUpdated = False, newMatchFoundThisCycle = False\<rparr> of
             Inl st \<Rightarrow> \<lparr>r_newMatchFound = newMatchFoundThisCycle st, r_cache = cache st,
                        r_file = file, r_sent = sent st\<rparr>
           | Inr st \<Rightarrow> \<lparr>r_newMatchFound = newMatchFoundThisCycle st, r_cache = cache st,
                        r_file = (if cacheUpdated st then writeCache stringify file (cache st)
                                  else file),
                        r_sent = sent st\<rparr>))"

section \<open>The orchestration loop\<close>

text \<open>
  The constants read from the environment, as the integers \<open>parseInt\<close> returned; a
  setting that does not parse (\<open>NaN\<close>) is left out.
\<close>

record config =
  START_HOUR :: int
  START_MINUTE :: int
  END_HOUR :: int
  END_MINUTE :: int
  DAILY_LIMIT :: int
  MORNING_LIMIT :: int

datatype decision =
    OutsideWindow int
  | QuotaExhausted int
  | MorningPause int
  | Active
  | CriticalError

definition windowOf :: "config \<Rightarrow> instant \<Rightarrow> instant \<times> instant" where
  "windowOf cfg date =
     getWindowTimes (START_HOUR cfg) (START_MINUTE cfg) (END_HOUR cfg) (END_MINUTE cfg) date"

text \<open>
  One pass of the \<open>while (true)\<close> loop of \<open>main\<close>, from the loaded cache to the point
  where it sleeps (the number carried is the duration), runs a cycle (\<open>Active\<close>) or
  leaves the loop through the outer \<open>catch\<close> (\<open>CriticalError\<close>). The flag \<open>browser\<close>
  says that a browser and a page are held, \<open>launch_ok\<close> that launching one and logging
  in succeeds; the pass returns the flag with its decision.
\<close>

definition main_pass :: "config \<Rightarrow> instant \<Rightarrow> bool \<Rightarrow> bool \<Rightarrow> json_value \<Rightarrow> decision \<times> bool" where
  "main_pass cfg t browser launch_ok loaded =
     (case loaded of
        OtherJson \<Rightarrow> (CriticalError, browser)
      | CacheJson c \<Rightarrow>
          (let todayWindow = windowOf cfg t;
               todaysMatches = getTodaysMatches t c
           in if t < fst todayWindow \<or> t > snd todayWindow then
                (let sleepUntil = (if t > snd todayWindow
                                   then fst (windowOf cfg (nextDay t))
                                   else fst todayWindow)
                 in (OutsideWindow (sleepUntil - t), False))
              else if \<not> browser \<and> \<not> launch_ok then (CriticalError, False)
              else if int (length todaysMatches) \<ge> DAILY_LIMIT cfg then
                (QuotaExhausted (fst (windowOf cfg (nextDay t)) - t), True)
              else if int (length todaysMatches) = MORNING_LIMIT cfg then
                (case todaysMatches of
                   [] \<Rightarrow> (CriticalError, True)
                 | first # others \<Rightarrow>
                     (let firstMatchTime = new_Date (matchedOn first);
                          noon = setHours t 12 0
                      in if (case firstMatchTime of None \<Rightarrow> False | Some f \<Rightarrow> f < noon)
                            \<and> t < noon
                         then (MorningPause (noon - t), True)
                         else (Active, True)))
              else (Active, True)))"

text \<open>The window check of \<open>main\<close>, read the other way round.\<close>

definition in_window :: "config \<Rightarrow> instant \<Rightarrow> bool" where
  "in_window cfg t = (fst (windowOf cfg t) \<le> t \<and> t \<le> snd (windowOf cfg t))"

text \<open>
  The test of lines 918 to 921 on its own: the first of today's matches, in the order of
  the ledger, was matched before noon.
\<close>

definition firstMatch_before_noon :: "instant \<Rightarrow> Cache \<Rightarrow> bool" where
  "firstMatch_before_noon t c =
     (case getTodaysMatches t c of
        [] \<Rightarrow> False
      | first # others \<Rightarrow>
          (case new_Date (matchedOn first) of None \<Rightarrow> False | Some f \<Rightarrow> f < setHours t 12 0))"

text \<open>
  The wording of the specification, for comparison: the earliest of today's matches, by
  time, occurred before noon.
\<close>

definition todays_match_times :: "instant \<Rightarrow> Cache \<Rightarrow> instant list" where
  "todays_match_times t c = List.map_filter (\<lambda>l. new_Date (matchedOn l)) (getTodaysMatches t c)"

definition spec_earliest_match_before_noon :: "instant \<Rightarrow> Cache \<Rightarrow> bool" where
  "spec_earliest_match_before_noon t c =
     (case todays_match_times t c of
        [] \<Rightarrow> False
      | m # ms \<Rightarrow> fold min ms m < setHours t 12 0)"

text \<open>
  The timestamp strings of a cache document, as \<open>writeCache\<close> hands them to
  \<open>JSON.stringify\<close>: of each lead its \<open>matchedOn\<close> and the \<open>datetime_changed\<close> of its
  history entries.
\<close>

definition timestamps_of :: "Cache \<Rightarrow> date_string list" where
  "timestamps_of c =
     concat (map (\<lambda>l. matchedOn l # map datetime_changed (statusHistory l)) (matchedLeads c))"

subsection \<open>Cycles in sequence\<close>

text \<open>
  What a cycle meets: whether the reload succeeds, the environment of each pass of its
  loop, and the articles of the page. In a run of cycles each one starts from the ledger
  and the file the one before left, as \<open>main\<close> does when each write of the cache
  succeeds and the file reads back as it was written.
\<close>

record cycle_input =
  in_reload_ok :: bool
  in_env :: "nat \<Rightarrow> step_env"
  in_page :: "article list"

fun cycles ::
  "(Cache \<Rightarrow> string) \<Rightarrow> string list \<Rightarrow> match_type \<Rightarrow> cycle_input list
     \<Rightarrow> cache_file \<times> Cache \<Rightarrow> cache_file \<times> Cache" where
  "cycles stringify keywords matchType [] fc = fc"
| "cycles stringify keywords matchType (i # is) fc =
     (let r = performScrapeCycle stringify keywords matchType
                (in_reload_ok i) (in_env i) (in_page i) (fst fc) (snd fc)
      in cycles stringify keywords matchType is (r_file r, r_cache r))"

subsection \<open>Sample data\<close>

text \<open>
  A configuration with the window 08:00 to 18:00, a lead matched at a given second, a
  scraped article without links, an environment whose screenshot succeeds and the state
  in which the loop of a cycle starts.
\<close>

definition sample_config :: "int \<Rightarrow> int \<Rightarrow> config" where
  "sample_config daily morning =
     \<lparr>START_HOUR = 8, START_MINUTE = 0, END_HOUR = 18, END_MINUTE = 0,
      DAILY_LIMIT = daily, MORNING_LIMIT = morning\<rparr>"

definition sample_lead :: "string \<Rightarrow> int \<Rightarrow> LeadStatus \<Rightarrow> MatchedLead" where
  "sample_lead ident second status =
     \<lparr>lead_id = ident, matchedOn = LocaleString second, links = [], content = [],
      currentStatus = status,
      statusHistory = [\<lparr>datetime_changed = LocaleString second, new_status = status\<rparr>]\<rparr>"

definition sample_scraped :: "string \<Rightarrow> LeadStatus option \<Rightarrow> scrapedArticle" where
  "sample_scraped ident status =
     \<lparr>s_id = ident, s_hasMatch = (status \<noteq> None), s_status = status, s_links = [],
      s_content = []\<rparr>"

definition sample_article :: "string \<Rightarrow> string option \<Rightarrow> string \<Rightarrow> article" where
  "sample_article ident span heading =
     \<lparr>art_id = ident, art_anchors = [], art_outerHTML = [], art_statusSpan = span,
      art_h2 = [heading], doc_emphasis = [], art_h4 = [], art_h4_p = [],
      art_textContent = heading\<rparr>"

definition sample_env :: "instant \<Rightarrow> step_env" where
  "sample_env t = \<lparr>now = t, screenshot_ok = True\<rparr>"

definition start_state :: "MatchedLead list \<Rightarrow> cycle_state" where
  "start_state leads =
     \<lparr>cache = \<lparr>matchedLeads = leads\<rparr>, sent = [], cacheUpdated = False,
      newMatchFoundThisCycle = False\<rparr>"

section \<open>Properties of the keyword matcher\<close>

lemma startsWith_iff: "startsWith s k \<longleftrightarrow> (\<exists>q. s = k @ q)"
  by (induction s k rule: startsWith.induct) auto

lemma includes_str_iff: "includes_str s k \<longleftrightarrow> (\<exists>p q. s = p @ k @ q)"
proof (induction s)
  case Nil
  then show ?case by auto
next
  case (Cons c cs)
  show ?case
  proof
    assume "includes_str (c # cs) k"
    then consider "startsWith (c # cs) k" | "includes_str cs k" by auto
    then show "\<exists>p q. c # cs = p @ k @ q"
    proof cases
      case 1
      then obtain q where "c # cs = k @ q" by (auto simp: startsWith_iff)
      then have "c # cs = [] @ k @ q" by simp
      then show ?thesis by blast
    next
      case 2
      then obtain p q where "cs = p @ k @ q" using Cons.IH by blast
      then have "c # cs = (c # p) @ k @ q" by simp
      then show ?thesis by blast
    qed
  next
    assume "\<exists>p q. c # cs = p @ k @ q"
    then obtain p q where pq: "c # cs = p @ k @ q" by blast
    show "includes_str (c # cs) k"
    proof (cases p)
      case Nil
      with pq have "startsWith (c # cs) k" by (auto simp: startsWith_iff)
      then show ?thesis by simp
    next
      case (Cons x p')
      with pq have "cs = p' @ k @ q" by simp
      then have "includes_str cs k" using Cons.IH by blast
      then show ?thesis by simp
    qed
  qed
qed

lemma toLowerCase_Nil_iff: "toLowerCase s = [] \<longleftrightarrow> s = []"
  by (simp add: toLowerCase_def)

text \<open>
  Claim C4, as the code has it. The matcher lowercases the text and tests whether a
  keyword occurs in it as a contiguous substring; mode \<open>each\<close> asks for one keyword, mode
  \<open>all\<close> for every keyword; an empty text matches in neither mode. With no keyword at
  all, mode \<open>each\<close> gives false, and mode \<open>all\<close> gives true on every text that is not
  empty, since \<open>every\<close> holds of the empty array. Two texts that differ only in the case
  of their letters match alike.
\<close>

theorem keyword_match_modes:
  "keyword_match keywords matchType txt =
     (txt \<noteq> [] \<and>
      (if matchType = MatchAll
       then (\<forall>k \<in> set keywords. \<exists>p q. toLowerCase txt = p @ k @ q)
       else (\<exists>k \<in> set keywords. \<exists>p q. toLowerCase txt = p @ k @ q)))
   \<and> keyword_match keywords matchType [] = False
   \<and> keyword_match [] MatchEach txt = False
   \<and> keyword_match [] MatchAll txt = (txt \<noteq> [])
   \<and> (toLowerCase txt = toLowerCase txt' \<longrightarrow>
        keyword_match keywords matchType txt = keyword_match keywords matchType txt')"
  by (auto simp: keyword_match_def Let_def toLowerCase_Nil_iff includes_str_iff
                 list_all_iff list_ex_iff toLowerCase_def)

theorem keyword_match_modes_witness:
  "keyword_match [''asbestos'', ''paint''] MatchEach ''Asbestos Removal quote''
   \<and> (\<exists>k \<in> set [''asbestos'', ''paint''].
          \<exists>p q. toLowerCase ''Asbestos Removal quote'' = p @ k @ q)
   \<and> \<not> keyword_match [''asbestos'', ''paint''] MatchAll ''Asbestos Removal quote''
   \<and> \<not> (\<forall>k \<in> set [''asbestos'', ''paint''].
            \<exists>p q. toLowerCase ''Asbestos Removal quote'' = p @ k @ q)"
proof -
  have e: "keyword_match [''asbestos'', ''paint''] MatchEach ''Asbestos Removal quote''"
    by code_simp
  have a: "\<not> keyword_match [''asbestos'', ''paint''] MatchAll ''Asbestos Removal quote''"
    by code_simp
  from e a show ?thesis
    using keyword_match_modes [of "[''asbestos'', ''paint'']" MatchEach "''Asbestos Removal quote''"]
          keyword_match_modes [of "[''asbestos'', ''paint'']" MatchAll "''Asbestos Removal quote''"]
    by simp
qed

text \<open>
  The claim says that an empty keyword set matches nothing in both modes. In mode \<open>all\<close>
  it matches a text that is not empty.
\<close>

theorem keyword_match_empty_all_counterexample:
  "keyword_match [] MatchAll ''asbestos removal quote'' \<noteq> False"
  by (simp add: keyword_match_def toLowerCase_def)

section \<open>Properties of the loop over the scraped articles\<close>

lemma findIndex_Some:
  "findIndex P xs = Some i \<Longrightarrow> i < length xs \<and> P (xs ! i) \<and> (\<forall>j<i. \<not> P (xs ! j))"
proof (induction xs arbitrary: i)
  case Nil
  then show ?case by simp
next
  case (Cons x xs)
  show ?case
  proof (cases "P x")
    case True
    with Cons.prems show ?thesis by simp
  next
    case False
    with Cons.prems obtain k where k: "findIndex P xs = Some k" "i = Suc k" by auto
    from Cons.IH [OF k(1)] False k(2) show ?thesis
      by (auto simp: nth_Cons split: nat.splits)
  qed
qed

lemma findIndex_None: "findIndex P xs = None \<longleftrightarrow> (\<forall>x \<in> set xs. \<not> P x)"
  by (induction xs) auto

lemma elapsedTimeMs_eq:
  "elapsedTimeMs t m = map_option (\<lambda>t0. t - t0) (new_Date m)"
  by (cases "new_Date m") (simp_all add: elapsedTimeMs_def toISOString_def)

lemma digit_char:
  assumes "n < 10"
  shows "is_digit (char_of (48 + n))" "digit_val (char_of (48 + n)) = n"
        "char_of (48 + n) \<noteq> CHR '' ''" "unit_seconds (char_of (48 + n)) = None"
proof -
  have v: "(of_char (char_of (48 + n)) :: nat) = 48 + n"
    using assms by simp
  show "is_digit (char_of (48 + n))" using assms v by (simp add: is_digit_def)
  show "digit_val (char_of (48 + n)) = n" using v by (simp add: digit_val_def)
  have ne: "char_of (48 + n) \<noteq> c" if "(of_char c :: nat) < 48" for c
  proof
    assume "char_of (48 + n) = c"
    then have "(of_char (char_of (48 + n)) :: nat) = of_char c" by simp
    with v that show False by simp
  qed
  have ne2: "char_of (48 + n) \<noteq> c" if "(of_char c :: nat) > 57" for c
  proof
    assume "char_of (48 + n) = c"
    then have "(of_char (char_of (48 + n)) :: nat) = of_char c" by simp
    with v that assms show False by simp
  qed
  show "char_of (48 + n) \<noteq> CHR '' ''" by (rule ne) simp
  show "unit_seconds (char_of (48 + n)) = None"
    using ne2 [of "CHR ''d''"] ne2 [of "CHR ''h''"] ne2 [of "CHR ''m''"] ne2 [of "CHR ''s''"]
    by (simp add: unit_seconds_def)
qed

lemma read_digit:
  "n < 10 \<Longrightarrow> read_elapsed_from (char_of (48 + n) # u # cs) cur secs
     = read_elapsed_from (u # cs) (10 * cur + n) secs"
  by (simp add: digit_char)

lemma read_string_of_nat:
  "rest \<noteq> [] \<Longrightarrow>
   read_elapsed_from (string_of_nat n @ rest) cur secs
     = read_elapsed_from rest (cur * 10 ^ length (string_of_nat n) + n) secs"
proof (induction n arbitrary: rest cur rule: string_of_nat.induct)
  case (1 n)
  from "1.prems" obtain u cs where rest: "rest = u # cs" by (cases rest) auto
  show ?case
  proof (cases "n < 10")
    case True
    then have s: "string_of_nat n = [char_of (48 + n)]"
      by (subst string_of_nat.simps) simp
    show ?thesis using digit_char [OF True] by (simp add: s rest mult.commute)
  next
    case False
    then have s: "string_of_nat n = string_of_nat (n div 10) @ [char_of (48 + n mod 10)]"
      by (subst string_of_nat.simps) simp
    have "read_elapsed_from (string_of_nat n @ rest) cur secs
            = read_elapsed_from (string_of_nat (n div 10) @ (char_of (48 + n mod 10) # rest)) cur secs"
      by (simp add: s)
    also have "\<dots> = read_elapsed_from (char_of (48 + n mod 10) # rest)
                        (cur * 10 ^ length (string_of_nat (n div 10)) + n div 10) secs"
      using "1.IH" [OF False, of "char_of (48 + n mod 10) # rest" cur] by simp
    also have "\<dots> = read_elapsed_from rest
                        (10 * (cur * 10 ^ length (string_of_nat (n div 10)) + n div 10) + n mod 10) secs"
      using digit_char [of "n mod 10"] by (simp add: rest)
    also have "10 * (cur * 10 ^ length (string_of_nat (n div 10)) + n div 10) + n mod 10
                = cur * 10 ^ length (string_of_nat n) + n"
      by (simp add: s algebra_simps)
    finally show ?thesis .
  qed
qed

lemma string_of_nat_head:
  "\<exists>d ds. string_of_nat n = d # ds \<and> d \<noteq> CHR '' '' \<and> unit_seconds d = None \<and> \<not> (d = CHR '' '')"
proof (induction n rule: string_of_nat.induct)
  case (1 n)
  show ?case
  proof (cases "n < 10")
    case True
    then have "string_of_nat n = [char_of (48 + n)]"
      by (subst string_of_nat.simps) simp
    with True show ?thesis by (simp add: digit_char)
  next
    case False
    then have "string_of_nat n = string_of_nat (n div 10) @ [char_of (48 + n mod 10)]"
      by (subst string_of_nat.simps) simp
    with "1.IH" [OF False] show ?thesis by auto
  qed
qed


lemma read_after_day:
  "read_elapsed_from ('' day(s), '' @ string_of_nat n @ rest) cur secs
     = read_elapsed_from (string_of_nat n @ rest) 0 (secs + cur * 86400)"
proof -
  from string_of_nat_head [of n] obtain d ds where
    "string_of_nat n = d # ds" "d \<noteq> CHR '' ''" "unit_seconds d = None" by blast
  then show ?thesis by (simp add: unit_seconds_def is_digit_def)
qed

lemma read_after_hour:
  "read_elapsed_from ('' hour(s), '' @ string_of_nat n @ rest) cur secs
     = read_elapsed_from (string_of_nat n @ rest) 0 (secs + cur * 3600)"
proof -
  from string_of_nat_head [of n] obtain d ds where
    "string_of_nat n = d # ds" "d \<noteq> CHR '' ''" "unit_seconds d = None" by blast
  then show ?thesis by (simp add: unit_seconds_def is_digit_def)
qed

lemma read_after_minute:
  "read_elapsed_from ('' minute(s), '' @ string_of_nat n @ rest) cur secs
     = read_elapsed_from (string_of_nat n @ rest) 0 (secs + cur * 60)"
proof -
  from string_of_nat_head [of n] obtain d ds where
    "string_of_nat n = d # ds" "d \<noteq> CHR '' ''" "unit_seconds d = None" by blast
  then show ?thesis by (simp add: unit_seconds_def is_digit_def)
qed

lemma read_after_second:
  "read_elapsed_from '' second(s)'' cur secs = secs + cur"
  by (simp add: unit_seconds_def is_digit_def)

lemma read_part_day:
  "read_elapsed_from (string_of_nat v @ '' day(s), '' @ string_of_nat n @ rest) 0 secs
     = read_elapsed_from (string_of_nat n @ rest) 0 (secs + v * 86400)"
proof -
  have "read_elapsed_from (string_of_nat v @ ('' day(s), '' @ string_of_nat n @ rest)) 0 secs
          = read_elapsed_from ('' day(s), '' @ string_of_nat n @ rest) v secs"
    by (subst read_string_of_nat) simp_all
  then show ?thesis by (simp only: read_after_day)
qed

lemma read_part_hour:
  "read_elapsed_from (string_of_nat v @ '' hour(s), '' @ string_of_nat n @ rest) 0 secs
     = read_elapsed_from (string_of_nat n @ rest) 0 (secs + v * 3600)"
proof -
  have "read_elapsed_from (string_of_nat v @ ('' hour(s), '' @ string_of_nat n @ rest)) 0 secs
          = read_elapsed_from ('' hour(s), '' @ string_of_nat n @ rest) v secs"
    by (subst read_string_of_nat) simp_all
  then show ?thesis by (simp only: read_after_hour)
qed

lemma read_part_minute:
  "read_elapsed_from (string_of_nat v @ '' minute(s), '' @ string_of_nat n @ rest) 0 secs
     = read_elapsed_from (string_of_nat n @ rest) 0 (secs + v * 60)"
proof -
  have "read_elapsed_from (string_of_nat v @ ('' minute(s), '' @ string_of_nat n @ rest)) 0 secs
          = read_elapsed_from ('' minute(s), '' @ string_of_nat n @ rest) v secs"
    by (subst read_string_of_nat) simp_all
  then show ?thesis by (simp only: read_after_minute)
qed

lemma read_part_second:
  "read_elapsed_from (string_of_nat v @ '' second(s)'') 0 secs = secs + v"
proof -
  have "read_elapsed_from (string_of_nat v @ '' second(s)'') 0 secs
          = read_elapsed_from '' second(s)'' v secs"
    by (subst read_string_of_nat) simp_all
  then show ?thesis by (simp only: read_after_second)
qed

lemma seconds_split:
  "(s::nat) div 86400 * 86400 + s mod 86400 div 3600 * 3600 + s mod 3600 div 60 * 60 + s mod 60 = s"
proof -
  have a: "s mod 3600 mod 60 = s mod 60" by (simp add: mod_mod_cancel)
  have b: "s mod 86400 mod 3600 = s mod 3600" by (simp add: mod_mod_cancel)
  have "s mod 3600 div 60 * 60 + s mod 60 = s mod 3600"
    using div_mult_mod_eq [of "s mod 3600" 60] a by simp
  moreover have "s mod 86400 div 3600 * 3600 + s mod 3600 = s mod 86400"
    using div_mult_mod_eq [of "s mod 86400" 3600] b by simp
  moreover have "s div 86400 * 86400 + s mod 86400 = s"
    by simp
  ultimately show ?thesis by linarith
qed

lemma formatElapsedTime_shape:
  assumes "0 \<le> ms"
    and "D = nat (ms div 1000) div 86400"
    and "H = nat (ms div 1000) mod 86400 div 3600"
    and "M = nat (ms div 1000) mod 3600 div 60"
    and "X = nat (ms div 1000) mod 60"
  shows "formatElapsedTime (Some ms) =
           (if 0 < D then string_of_nat D @ '' day(s), '' else [])
         @ (if 0 < H then string_of_nat H @ '' hour(s), '' else [])
         @ (if 0 < M then string_of_nat M @ '' minute(s), '' else [])
         @ string_of_nat X @ '' second(s)''"
proof -
  from assms(1) have t: "ms div 1000 = int (nat (ms div 1000))" by simp
  have n: "0 \<le> ms div 1000" using assms(1) by simp
  have d: "ms div 1000 div 86400 = int D"
    by (subst t) (simp only: assms(2) zdiv_int of_nat_numeral)
  have h: "js_rem (ms div 1000) 86400 div 3600 = int H"
    unfolding js_rem_def using n
    by (subst t, subst t) (simp add: assms(3) zdiv_int zmod_int del: of_nat_div of_nat_mod)
  have m: "js_rem (ms div 1000) 3600 div 60 = int M"
    unfolding js_rem_def using n
    by (subst t, subst t) (simp add: assms(4) zdiv_int zmod_int del: of_nat_div of_nat_mod)
  have x: "js_rem (ms div 1000) 60 = int X"
    unfolding js_rem_def using n
    by (subst t, subst t) (simp add: assms(5) zmod_int del: of_nat_mod)
  have "formatElapsedTime (Some ms) =
          join '', '' ((if int D > 0 then [string_of_int (int D) @ '' day(s)''] else [])
                @ (if int H > 0 then [string_of_int (int H) @ '' hour(s)''] else [])
                @ (if int M > 0 then [string_of_int (int M) @ '' minute(s)''] else [])
                @ [string_of_int (int X) @ '' second(s)''])"
    by (simp only: formatElapsedTime.simps Let_def d h m x)
  then show ?thesis
    by (simp add: string_of_int_def)
qed

lemma read_formatElapsedTime:
  assumes "0 \<le> ms"
  shows "read_elapsed_seconds (formatElapsedTime (Some ms)) = ms div 1000"
proof -
  define s where "s = nat (ms div 1000)"
  define D where "D = s div 86400"
  define H where "H = s mod 86400 div 3600"
  define M where "M = s mod 3600 div 60"
  define X where "X = s mod 60"
  have sum: "D * 86400 + H * 3600 + M * 60 + X = s"
    unfolding D_def H_def M_def X_def by (rule seconds_split)
  have shape: "formatElapsedTime (Some ms) =
           (if 0 < D then string_of_nat D @ '' day(s), '' else [])
         @ (if 0 < H then string_of_nat H @ '' hour(s), '' else [])
         @ (if 0 < M then string_of_nat M @ '' minute(s), '' else [])
         @ string_of_nat X @ '' second(s)''"
    by (rule formatElapsedTime_shape [OF assms]) (simp_all add: D_def H_def M_def X_def s_def)
  have "read_elapsed_from (formatElapsedTime (Some ms)) 0 0
          = (if 0 < D then D else 0) * 86400 + (if 0 < H then H else 0) * 3600
            + (if 0 < M then M else 0) * 60 + X"
    unfolding shape
    by (cases "0 < D"; cases "0 < H"; cases "0 < M";
        simp only: if_True if_False if_P if_not_P append_Nil append_assoc read_part_day read_part_hour
                   read_part_minute read_part_second;
        simp)
  also have "\<dots> = s" using sum by auto
  finally show ?thesis using assms by (simp add: read_elapsed_seconds_def s_def)
qed

text \<open>
  Claim C1. When the identifier of the scraped article is found in the ledger, at the
  first lead \<open>existing\<close> that carries it: if that lead is a potential lead and the
  article shows the waitlist marker, the pass sets its status to transitioned, appends
  one history entry with the current instant and the new status, leaves every other
  lead as it was and sends one notification, for the updated lead, with the formatted
  time from \<open>matchedOn\<close> to the current instant: when \<open>matchedOn\<close> is a date not
  later than that instant, the text of the notification reads back as the whole seconds
  between the two. In every other case the pass changes nothing and sends nothing.
\<close>

theorem process_article_existing:
  assumes "findIndex (\<lambda>l. lead_id l = s_id a) (matchedLeads (cache st)) = Some i"
    and "leads = matchedLeads (cache st)"
    and "existing = leads ! i"
  shows "(currentStatus existing = PotentialLead \<and> s_status a = Some AlreadyWaitlisted \<longrightarrow>
            (\<exists>st'. process_article env a st = Inr st'
               \<and> length (matchedLeads (cache st')) = length leads
               \<and> matchedLeads (cache st') ! i =
                   existing\<lparr>currentStatus := TransitionedToWaitlisted,
                            statusHistory := statusHistory existing
                              @ [\<lparr>datetime_changed = toISOString (now env),
                                  new_status = TransitionedToWaitlisted\<rparr>]\<rparr>
               \<and> (\<forall>j. j \<noteq> i \<longrightarrow> matchedLeads (cache st') ! j = leads ! j)
               \<and> sent st' = sent st
                   @ [\<lparr>n_lead = matchedLeads (cache st') ! i,
                       n_elapsedTime = Some (formatElapsedTime
                         (map_option (\<lambda>matched. now env - matched)
                            (new_Date (matchedOn existing))))\<rparr>]
               \<and> (\<forall>matched. new_Date (matchedOn existing) = Some matched
                      \<and> matched \<le> now env \<longrightarrow>
                      map_option read_elapsed_seconds (n_elapsedTime (last (sent st')))
                        = Some ((now env - matched) div 1000))))
       \<and> (\<not> (currentStatus existing = PotentialLead \<and> s_status a = Some AlreadyWaitlisted) \<longrightarrow>
            process_article env a st = Inr st)"
proof -
  from findIndex_Some [OF assms(1)] assms(2) have i: "i < length leads" by simp
  show ?thesis
    using assms i
    by (auto simp: process_article_def Let_def elapsedTimeMs_eq read_formatElapsedTime
             simp del: formatElapsedTime.simps)
qed

theorem process_article_existing_witness:
  "(\<exists>st'. process_article (sample_env 36000005)
             (sample_scraped ''a'' (Some AlreadyWaitlisted))
             (start_state [sample_lead ''b'' 30000 PotentialLead,
                           sample_lead ''a'' 32400 PotentialLead]) = Inr st'
      \<and> currentStatus (matchedLeads (cache st') ! 1) = TransitionedToWaitlisted
      \<and> statusHistory (matchedLeads (cache st') ! 1) =
          [\<lparr>datetime_changed = LocaleString 32400, new_status = PotentialLead\<rparr>,
           \<lparr>datetime_changed = ISOString 36000005, new_status = TransitionedToWaitlisted\<rparr>]
      \<and> map n_elapsedTime (sent st') = [Some ''1 hour(s), 0 second(s)'']
      \<and> map_option read_elapsed_seconds (n_elapsedTime (last (sent st'))) = Some 3600)
   \<and> process_article (sample_env 36000005) (sample_scraped ''a'' None)
        (start_state [sample_lead ''b'' 30000 PotentialLead,
                      sample_lead ''a'' 32400 PotentialLead])
      = Inr (start_state [sample_lead ''b'' 30000 PotentialLead,
                          sample_lead ''a'' 32400 PotentialLead])"
proof -
  let ?st = "start_state [sample_lead ''b'' 30000 PotentialLead, sample_lead ''a'' 32400 PotentialLead]"
  have f: "findIndex (\<lambda>l. lead_id l = s_id (sample_scraped ''a'' (Some AlreadyWaitlisted)))
             (matchedLeads (cache ?st)) = Some 1"
    by (simp add: start_state_def sample_lead_def sample_scraped_def)
  have f2: "findIndex (\<lambda>l. lead_id l = s_id (sample_scraped ''a'' None))
             (matchedLeads (cache ?st)) = Some 1"
    by (simp add: start_state_def sample_lead_def sample_scraped_def)
  have fmt: "formatElapsedTime (Some 3600005) = ''1 hour(s), 0 second(s)''"
    by code_simp
  show ?thesis
    using process_article_existing [OF f refl refl, of "sample_env 36000005"]
          process_article_existing [OF f2 refl refl, of "sample_env 36000005"] fmt
    by (auto simp: start_state_def sample_lead_def sample_scraped_def sample_env_def toISOString_def)
qed

lemma process_article_found:
  assumes "\<exists>l \<in> set (matchedLeads (cache st)). lead_id l = s_id a"
  shows "\<exists>st'. process_article env a st = Inr st'
           \<and> map lead_id (matchedLeads (cache st')) = map lead_id (matchedLeads (cache st))"
proof -
  from assms obtain i where i: "findIndex (\<lambda>l. lead_id l = s_id a) (matchedLeads (cache st)) = Some i"
    using findIndex_None [of "\<lambda>l. lead_id l = s_id a" "matchedLeads (cache st)"] by fastforce
  from findIndex_Some [OF i] have "i < length (matchedLeads (cache st))" by simp
  then show ?thesis
    using i by (auto simp: process_article_def Let_def map_update list_update_same_conv)
qed

lemma process_article_ids:
  assumes "process_article env a st = Inr st' \<or> process_article env a st = Inl st'"
  shows "map lead_id (matchedLeads (cache st')) = map lead_id (matchedLeads (cache st))
         \<or> (s_id a \<notin> lead_id ` set (matchedLeads (cache st))
            \<and> map lead_id (matchedLeads (cache st')) = s_id a # map lead_id (matchedLeads (cache st)))"
proof (cases "findIndex (\<lambda>l. lead_id l = s_id a) (matchedLeads (cache st))")
  case None
  then have "s_id a \<notin> lead_id ` set (matchedLeads (cache st))"
    by (auto simp: findIndex_None)
  with None assms show ?thesis
    by (auto simp: process_article_def Let_def split: option.splits if_splits)
next
  case (Some i)
  then have "\<exists>l \<in> set (matchedLeads (cache st)). lead_id l = s_id a"
    using findIndex_None [of "\<lambda>l. lead_id l = s_id a" "matchedLeads (cache st)"] by auto
  from process_article_found [OF this, of env] assms show ?thesis by auto
qed

lemma process_article_distinct:
  assumes "process_article env a st = Inr st' \<or> process_article env a st = Inl st'"
    and "distinct (map lead_id (matchedLeads (cache st)))"
  shows "distinct (map lead_id (matchedLeads (cache st')))"
  using process_article_ids [OF assms(1)] assms(2) by auto

lemma for_loop_distinct:
  assumes "for_loop env i as st = Inr st' \<or> for_loop env i as st = Inl st'"
    and "distinct (map lead_id (matchedLeads (cache st)))"
  shows "distinct (map lead_id (matchedLeads (cache st')))"
  using assms
proof (induction as arbitrary: i st)
  case Nil
  then show ?case by auto
next
  case (Cons a as)
  show ?case
  proof (cases "process_article (env i) a st")
    case (Inl thrown)
    with Cons.prems(1) have "st' = thrown" by simp
    with Inl Cons.prems(2) show ?thesis
      using process_article_distinct [of "env i" a st thrown] by simp
  next
    case (Inr st1)
    then have d: "distinct (map lead_id (matchedLeads (cache st1)))"
      using process_article_distinct [of "env i" a st st1] Cons.prems(2) by simp
    from Inr Cons.prems(1)
    have "for_loop env (Suc i) as st1 = Inr st' \<or> for_loop env (Suc i) as st1 = Inl st'"
      by simp
    from Cons.IH [OF this d] show ?thesis .
  qed
qed

lemma performScrapeCycle_distinct:
  assumes "distinct (map lead_id (matchedLeads c))"
  shows "distinct (map lead_id (matchedLeads
           (r_cache (performScrapeCycle stringify keywords matchType ok env page file c))))"
proof (cases "ok")
  case False
  with assms show ?thesis by (simp add: performScrapeCycle_def)
next
  case True
  show ?thesis
  proof (cases "scrape_all keywords matchType page")
    case None
    with True assms show ?thesis by (simp add: performScrapeCycle_def)
  next
    case (Some leadsOnPage)
    let ?st0 = "\<lparr>cache = c, sent = [], cacheUpdated = False, newMatchFoundThisCycle = False\<rparr>"
    have d0: "distinct (map lead_id (matchedLeads (cache ?st0)))" using assms by simp
    show ?thesis
    proof (cases "for_loop env 0 leadsOnPage ?st0")
      case (Inl st)
      with for_loop_distinct [of env 0 leadsOnPage ?st0 st] d0
      have "distinct (map lead_id (matchedLeads (cache st)))" by simp
      with True Some Inl show ?thesis by (simp add: performScrapeCycle_def)
    next
      case (Inr st)
      with for_loop_distinct [of env 0 leadsOnPage ?st0 st] d0
      have "distinct (map lead_id (matchedLeads (cache st)))" by simp
      with True Some Inr show ?thesis by (simp add: performScrapeCycle_def)
    qed
  qed
qed

lemma cycles_distinct:
  "distinct (map lead_id (matchedLeads (snd fc))) \<Longrightarrow>
   distinct (map lead_id (matchedLeads (snd (cycles stringify keywords matchType inputs fc))))"
proof (induction inputs arbitrary: fc)
  case Nil
  then show ?case by simp
next
  case (Cons i inputs)
  show ?case
    using Cons.IH [of "(r_file (performScrapeCycle stringify keywords matchType
                (in_reload_ok i) (in_env i) (in_page i) (fst fc) (snd fc)),
                r_cache (performScrapeCycle stringify keywords matchType
                (in_reload_ok i) (in_env i) (in_page i) (fst fc) (snd fc)))"]
          performScrapeCycle_distinct [OF Cons.prems]
    by (simp add: Let_def)
qed

text \<open>
  Claim C2. When the identifier of the scraped article is that of a lead of the ledger,
  the pass creates no lead: the identifiers of the ledger stay as they were. Hence a
  ledger whose identifiers are pairwise distinct keeps them pairwise distinct through
  one cycle and through any run of cycles, whether a cycle completes, is skipped or is
  cut short. The next pass of \<open>main\<close> reads back either the ledger the cycle left or,
  when nothing was written, the one it started from.
\<close>

theorem no_second_lead:
  "((\<exists>l \<in> set (matchedLeads (cache st)). lead_id l = s_id a) \<longrightarrow>
      (\<exists>st'. process_article env a st = Inr st'
         \<and> map lead_id (matchedLeads (cache st')) = map lead_id (matchedLeads (cache st))))
   \<and> (distinct (map lead_id (matchedLeads c)) \<longrightarrow>
        distinct (map lead_id (matchedLeads
          (r_cache (performScrapeCycle stringify keywords matchType ok env1 page file c))))
        \<and> distinct (map lead_id (matchedLeads
          (snd (cycles stringify keywords matchType inputs (file, c))))))"
  using process_article_found [of st a env]
        performScrapeCycle_distinct [of c]
        cycles_distinct [where fc = "(file, c)"]
  by auto

theorem no_second_lead_witness:
  "(\<exists>st'. process_article (sample_env 36000005) (sample_scraped ''a'' (Some PotentialLead))
            (start_state [sample_lead ''a'' 32400 PotentialLead]) = Inr st'
      \<and> map lead_id (matchedLeads (cache st')) = [''a''])
   \<and> map lead_id (matchedLeads (snd (cycles (\<lambda>c. []) [''asbestos''] MatchEach
          [\<lparr>in_reload_ok = True, in_env = (\<lambda>i. sample_env 36000005),
            in_page = [sample_article ''a'' None ''Asbestos roof'',
                       sample_article ''a'' (Some ''Waitlist'') ''Asbestos roof'']\<rparr>,
           \<lparr>in_reload_ok = True, in_env = (\<lambda>i. sample_env 36060005),
            in_page = [sample_article ''a'' None ''Asbestos roof'',
                       sample_article ''b'' (Some ''Waitlist'') ''Paint'']\<rparr>]
          (\<lparr>file_text = None, writable = True\<rparr>, \<lparr>matchedLeads = []\<rparr>)))) = [''b'', ''a'']
   \<and> distinct [''b'', ''a'']"
proof -
  let ?run = "cycles (\<lambda>c. []) [''asbestos''] MatchEach
          [\<lparr>in_reload_ok = True, in_env = (\<lambda>i. sample_env 36000005),
            in_page = [sample_article ''a'' None ''Asbestos roof'',
                       sample_article ''a'' (Some ''Waitlist'') ''Asbestos roof'']\<rparr>,
           \<lparr>in_reload_ok = True, in_env = (\<lambda>i. sample_env 36060005),
            in_page = [sample_article ''a'' None ''Asbestos roof'',
                       sample_article ''b'' (Some ''Waitlist'') ''Paint'']\<rparr>]
          (\<lparr>file_text = None, writable = True\<rparr>, \<lparr>matchedLeads = []\<rparr>)"
  have run: "map lead_id (matchedLeads (snd ?run)) = [''b'', ''a'']"
    by code_simp
  have h: "\<exists>l \<in> set (matchedLeads (cache (start_state [sample_lead ''a'' 32400 PotentialLead]))).
             lead_id l = s_id (sample_scraped ''a'' (Some PotentialLead))"
    by (simp add: start_state_def sample_lead_def sample_scraped_def)
  have d: "distinct (map lead_id (matchedLeads \<lparr>matchedLeads = []\<rparr>))" by simp
  from no_second_lead [where st = "start_state [sample_lead ''a'' 32400 PotentialLead]"
         and a = "sample_scraped ''a'' (Some PotentialLead)" and env = "sample_env 36000005"
         and c = "\<lparr>matchedLeads = []\<rparr>"] h d run
  show ?thesis
    by (auto simp: start_state_def sample_lead_def)
qed

lemma scrape_hasMatch:
  "scrape keywords matchType art = Some a \<Longrightarrow> s_hasMatch a = (s_status a \<noteq> None)"
  by (auto simp: scrape_def Let_def split: if_splits list.splits)

lemma scrape_waitlist:
  "map_option trim (art_statusSpan art) = Some ''Waitlist'' \<Longrightarrow>
   \<exists>a. scrape keywords matchType art = Some a \<and> s_status a = Some AlreadyWaitlisted"
  by (simp add: scrape_def Let_def)

text \<open>
  Claim C6, as the code has it. When the identifier of the scraped article is not in the
  ledger, the article shows the waitlist marker and the screenshot succeeds, the pass
  puts a new lead with the status already waitlisted, and a history of that one entry,
  at the front of the ledger, and sends no notification.
\<close>

theorem process_article_new_waitlisted:
  assumes "findIndex (\<lambda>l. lead_id l = s_id a) (matchedLeads (cache st)) = None"
    and "s_status a = Some AlreadyWaitlisted"
    and "s_hasMatch a"
    and "screenshot_ok env"
  shows "\<exists>st' newLead. process_article env a st = Inr st'
           \<and> matchedLeads (cache st') = newLead # matchedLeads (cache st)
           \<and> lead_id newLead = s_id a
           \<and> currentStatus newLead = AlreadyWaitlisted
           \<and> statusHistory newLead =
               [\<lparr>datetime_changed = matchedOn newLead, new_status = AlreadyWaitlisted\<rparr>]
           \<and> sent st' = sent st"
  using assms by (simp add: process_article_def Let_def)

theorem process_article_new_waitlisted_witness:
  "\<exists>st' newLead. process_article (sample_env 36000005)
       (sample_scraped ''c'' (Some AlreadyWaitlisted))
       (start_state [sample_lead ''a'' 32400 PotentialLead]) = Inr st'
     \<and> matchedLeads (cache st') = [newLead, sample_lead ''a'' 32400 PotentialLead]
     \<and> lead_id newLead = ''c''
     \<and> currentStatus newLead = AlreadyWaitlisted
     \<and> sent st' = []"
proof -
  let ?st = "start_state [sample_lead ''a'' 32400 PotentialLead]"
  let ?a = "sample_scraped ''c'' (Some AlreadyWaitlisted)"
  have f: "findIndex (\<lambda>l. lead_id l = s_id ?a) (matchedLeads (cache ?st)) = None"
    by (simp add: start_state_def sample_lead_def sample_scraped_def)
  have s: "s_status ?a = Some AlreadyWaitlisted" "s_hasMatch ?a"
    by (simp_all add: sample_scraped_def)
  have e: "screenshot_ok (sample_env 36000005)" by (simp add: sample_env_def)
  from process_article_new_waitlisted [OF f s e]
  show ?thesis
    by (auto simp: start_state_def sample_scraped_def)
qed

text \<open>
  The claim has a notification sent for the new lead. On the empty ledger the pass sends
  none for an article with the waitlist marker, and one for a keyword match: line 713
  sends only for a new potential lead.
\<close>

theorem new_waitlisted_no_notification_counterexample:
  "map_sum sent sent
     (process_article (sample_env 36000005) (sample_scraped ''c'' (Some AlreadyWaitlisted))
        (start_state [])) = Inr []
   \<and> map_sum sent sent
       (process_article (sample_env 36000005) (sample_scraped ''c'' (Some PotentialLead))
          (start_state []))
     = Inr [\<lparr>n_lead = sample_lead ''c'' 36000 PotentialLead, n_elapsedTime = None\<rparr>]"
  by (simp add: process_article_def Let_def start_state_def sample_scraped_def sample_env_def
                sample_lead_def toLocaleString_def)

text \<open>
  Claim C9 asks for ISO 8601 strings in every \<open>matchedOn\<close> and \<open>datetime_changed\<close>
  written. A cycle on the empty ledger that sees a keyword match and an article with the
  waitlist marker leaves two leads whose four timestamps all come from
  \<open>toLocaleString\<close> (line 702), none of them an ISO 8601 string.
\<close>

theorem new_lead_timestamp_not_ISO:
  "timestamps_of (r_cache (performScrapeCycle (\<lambda>c. []) [''asbestos''] MatchEach True
       (\<lambda>i. sample_env 36000005)
       [sample_article ''a'' None ''Asbestos roof'',
        sample_article ''b'' (Some ''Waitlist'') ''Paint'']
       \<lparr>file_text = None, writable = True\<rparr> \<lparr>matchedLeads = []\<rparr>))
     = [LocaleString 36000, LocaleString 36000, LocaleString 36000, LocaleString 36000]
   \<and> \<not> is_ISO_8601 (LocaleString 36000)"
  by code_simp

section \<open>Properties of the orchestration loop\<close>


lemma windowOf_simps:
  "fst (windowOf cfg t) = setHours t (START_HOUR cfg) (START_MINUTE cfg)"
  "snd (windowOf cfg t) = setHours t (END_HOUR cfg) (END_MINUTE cfg)"
  by (simp_all add: windowOf_def getWindowTimes_def)

lemma setHours_nextDay: "setHours (nextDay t) h m = setHours t h m + day_ms"
  by (simp add: setHours_def nextDay_def day_ms_def)

lemma getTodaysMatches_count:
  "getTodaysMatches t c =
     filter (\<lambda>l. currentStatus l = PotentialLead
                \<and> (\<exists>d. new_Date (matchedOn l) = Some d
                       \<and> setHours t 0 0 \<le> d \<and> d < setHours t 0 0 + day_ms))
            (matchedLeads c)"
  unfolding getTodaysMatches_def
  by (rule filter_cong) (auto simp: matchedDate_today_def Let_def nextDay_def split: option.splits)

lemma fold_min_le: "fold min xs (m::int) \<le> m"
  by (induction xs arbitrary: m) (auto intro: order_trans [OF _ min.cobounded2])

lemma todays_match_times_Cons:
  "getTodaysMatches t c = first # others \<Longrightarrow>
   \<exists>f. new_Date (matchedOn first) = Some f
       \<and> todays_match_times t c = f # List.map_filter (\<lambda>l. new_Date (matchedOn l)) others"
proof -
  assume a: "getTodaysMatches t c = first # others"
  then have "first \<in> set (getTodaysMatches t c)" by simp
  then have "matchedDate_today t first" by (simp add: getTodaysMatches_def)
  then obtain f where "new_Date (matchedOn first) = Some f"
    by (auto simp: matchedDate_today_def Let_def split: option.splits)
  with a show ?thesis by (simp add: todays_match_times_def List.map_filter_simps)
qed

lemma firstMatch_imp_earliest:
  "firstMatch_before_noon t c \<Longrightarrow> spec_earliest_match_before_noon t c"
proof -
  assume a: "firstMatch_before_noon t c"
  then obtain first others where g: "getTodaysMatches t c = first # others"
    by (auto simp: firstMatch_before_noon_def split: list.splits)
  from todays_match_times_Cons [OF g] obtain f where
    f: "new_Date (matchedOn first) = Some f"
       "todays_match_times t c = f # List.map_filter (\<lambda>l. new_Date (matchedOn l)) others"
    by blast
  from a g f(1) have "f < setHours t 12 0" by (simp add: firstMatch_before_noon_def)
  with fold_min_le [of "List.map_filter (\<lambda>l. new_Date (matchedOn l)) others" f] f(2)
  show ?thesis by (simp add: spec_earliest_match_before_noon_def)
qed

lemma earliest_imp_firstMatch:
  assumes "spec_earliest_match_before_noon t c"
    and "\<forall>m \<in> set (todays_match_times t c). m \<le> t"
    and "t < setHours t 12 0"
  shows "firstMatch_before_noon t c"
proof -
  from assms(1) obtain m ms where m: "todays_match_times t c = m # ms"
    by (auto simp: spec_earliest_match_before_noon_def split: list.splits)
  then obtain first others where g: "getTodaysMatches t c = first # others"
    by (cases "getTodaysMatches t c") (auto simp: todays_match_times_def List.map_filter_simps)
  from todays_match_times_Cons [OF g] obtain f where
    f: "new_Date (matchedOn first) = Some f"
       "todays_match_times t c = f # List.map_filter (\<lambda>l. new_Date (matchedOn l)) others"
    by blast
  with assms(2) have "f \<le> t" by simp
  with assms(3) g f(1) show ?thesis by (simp add: firstMatch_before_noon_def)
qed

text \<open>
  The pass ends in the morning pause exactly when the instant is inside the window, a
  browser is held or can be launched, the number of today's matches is below the daily
  limit and equal to the morning limit, the first of today's matches in the order of
  the ledger was matched before noon, and the instant is before noon.
\<close>

lemma morning_pause_first:
  "main_pass cfg t browser launch_ok (CacheJson c) = (MorningPause d, b)
     \<longleftrightarrow> (in_window cfg t \<and> (browser \<or> launch_ok)
          \<and> int (length (getTodaysMatches t c)) < DAILY_LIMIT cfg
          \<and> int (length (getTodaysMatches t c)) = MORNING_LIMIT cfg
          \<and> firstMatch_before_noon t c
          \<and> t < setHours t 12 0
          \<and> d = setHours t 12 0 - t \<and> b)"
  by (auto simp: main_pass_def Let_def in_window_def firstMatch_before_noon_def
           split: list.splits option.splits)

text \<open>
  Claim C3, as the code has it. On a ledger none of whose matches of today is dated
  after the instant of the pass, as the clock stamps them, the pass ends in the morning
  pause exactly when the instant is inside the window, a browser is held or can be
  launched, the number of today's matches is below the daily limit and equal to the
  morning limit, the earliest of today's matches occurred before noon, and the instant
  is before noon; the pause lasts until noon.
\<close>

theorem morning_pause_earliest:
  assumes "\<forall>m \<in> set (todays_match_times t c). m \<le> t"
  shows "main_pass cfg t browser launch_ok (CacheJson c) = (MorningPause d, b)
     \<longleftrightarrow> (in_window cfg t \<and> (browser \<or> launch_ok)
          \<and> int (length (getTodaysMatches t c)) < DAILY_LIMIT cfg
          \<and> int (length (getTodaysMatches t c)) = MORNING_LIMIT cfg
          \<and> spec_earliest_match_before_noon t c
          \<and> t < setHours t 12 0
          \<and> d = setHours t 12 0 - t \<and> b)"
proof -
  have "t < setHours t 12 0 \<Longrightarrow>
        firstMatch_before_noon t c \<longleftrightarrow> spec_earliest_match_before_noon t c"
    using firstMatch_imp_earliest [of t c] earliest_imp_firstMatch [OF _ assms] by blast
  then show ?thesis
    unfolding morning_pause_first by blast
qed

theorem morning_pause_earliest_witness:
  "todays_match_times 36000000 \<lparr>matchedLeads = [sample_lead ''a'' 32400 PotentialLead]\<rparr>
     = [32400000]
   \<and> main_pass (sample_config 6 1) 36000000 True True
       (CacheJson \<lparr>matchedLeads = [sample_lead ''a'' 32400 PotentialLead]\<rparr>)
     = (MorningPause 7200000, True)
   \<and> in_window (sample_config 6 1) 36000000
   \<and> spec_earliest_match_before_noon 36000000
       \<lparr>matchedLeads = [sample_lead ''a'' 32400 PotentialLead]\<rparr>
   \<and> main_pass (sample_config 6 1) 46800000 True True
       (CacheJson \<lparr>matchedLeads = [sample_lead ''a'' 32400 PotentialLead]\<rparr>)
     \<noteq> (MorningPause 7200000, True)"
proof -
  let ?c = "\<lparr>matchedLeads = [sample_lead ''a'' 32400 PotentialLead]\<rparr>"
  have g: "getTodaysMatches 36000000 ?c = [sample_lead ''a'' 32400 PotentialLead]"
          "getTodaysMatches 46800000 ?c = [sample_lead ''a'' 32400 PotentialLead]"
    by (simp_all add: getTodaysMatches_def matchedDate_today_def sample_lead_def setHours_def
                      nextDay_def day_ms_def)
  have tm: "todays_match_times 36000000 ?c = [32400000]"
           "todays_match_times 46800000 ?c = [32400000]"
    by (simp_all add: todays_match_times_def g List.map_filter_simps)
       (simp_all add: sample_lead_def)
  have past: "\<forall>m \<in> set (todays_match_times 36000000 ?c). m \<le> 36000000"
             "\<forall>m \<in> set (todays_match_times 46800000 ?c). m \<le> 46800000"
    by (simp_all add: tm)
  have w: "in_window (sample_config 6 1) 36000000"
    by (simp add: in_window_def windowOf_simps sample_config_def setHours_def day_ms_def)
  have e: "spec_earliest_match_before_noon 36000000 ?c"
    by (simp add: spec_earliest_match_before_noon_def tm setHours_def day_ms_def)
  have n: "(36000000::int) < setHours 36000000 12 0" "setHours 36000000 12 0 - 36000000 = 7200000"
          "\<not> (46800000::int) < setHours 46800000 12 0"
    by (simp_all add: setHours_def day_ms_def)
  have l: "DAILY_LIMIT (sample_config 6 1) = 6" "MORNING_LIMIT (sample_config 6 1) = 1"
    by (simp_all add: sample_config_def)
  show ?thesis
    using morning_pause_earliest [OF past(1), of "sample_config 6 1" True True 7200000 True]
          morning_pause_earliest [OF past(2), of "sample_config 6 1" True True 7200000 True]
          g tm w e n l
    by simp
qed

text \<open>
  The claim speaks of any pass inside the window. With one potential lead matched at
  09:00, a morning limit of one and the clock at 10:00, every condition of the claim
  holds; when no browser is held and the launch of lines 882 to 905 fails, the pass
  leaves the loop through the outer \<open>catch\<close> and does not pause.
\<close>

theorem morning_pause_launch_counterexample:
  "in_window (sample_config 6 1) 36000000
   \<and> int (length (getTodaysMatches 36000000
        \<lparr>matchedLeads = [sample_lead ''a'' 32400 PotentialLead]\<rparr>)) < DAILY_LIMIT (sample_config 6 1)
   \<and> int (length (getTodaysMatches 36000000
        \<lparr>matchedLeads = [sample_lead ''a'' 32400 PotentialLead]\<rparr>)) = MORNING_LIMIT (sample_config 6 1)
   \<and> spec_earliest_match_before_noon 36000000
        \<lparr>matchedLeads = [sample_lead ''a'' 32400 PotentialLead]\<rparr>
   \<and> 36000000 < setHours 36000000 12 0
   \<and> main_pass (sample_config 6 1) 36000000 False False
        (CacheJson \<lparr>matchedLeads = [sample_lead ''a'' 32400 PotentialLead]\<rparr>)
       = (CriticalError, False)"
  by code_simp

text \<open>
  Claim C5, as the code has it. A pass ends in the sleep of the exhausted quota exactly
  when the instant is inside the window, a browser is held or can be launched, and the
  number of today's matches is at or above the daily limit, whatever the time of day;
  the sleep lasts until the start of tomorrow's window, which is today's start one day
  later. With a daily limit of zero this is every such pass. Inside the window, with no
  browser held and a launch that fails, the pass leaves the loop through the outer
  \<open>catch\<close> before the quota is looked at. Today's matches are the leads of the ledger
  that are potential leads matched from local midnight up to the next.
\<close>

theorem quota_exhausted:
  "(main_pass cfg t browser launch_ok (CacheJson c) = (QuotaExhausted d, b)
      \<longleftrightarrow> (in_window cfg t \<and> (browser \<or> launch_ok)
           \<and> int (length (getTodaysMatches t c)) \<ge> DAILY_LIMIT cfg
           \<and> d = fst (windowOf cfg (nextDay t)) - t \<and> b))
   \<and> (in_window cfg t \<and> (browser \<or> launch_ok) \<and> DAILY_LIMIT cfg = 0 \<longrightarrow>
        main_pass cfg t browser launch_ok (CacheJson c)
          = (QuotaExhausted (fst (windowOf cfg (nextDay t)) - t), True))
   \<and> (in_window cfg t \<and> \<not> browser \<and> \<not> launch_ok \<longrightarrow>
        main_pass cfg t browser launch_ok (CacheJson c) = (CriticalError, False))
   \<and> fst (windowOf cfg (nextDay t)) = fst (windowOf cfg t) + day_ms
   \<and> getTodaysMatches t c =
        filter (\<lambda>l. currentStatus l = PotentialLead
                   \<and> (\<exists>m. new_Date (matchedOn l) = Some m
                          \<and> setHours t 0 0 \<le> m \<and> m < setHours t 0 0 + day_ms))
               (matchedLeads c)"
proof -
  have 1: "main_pass cfg t browser launch_ok (CacheJson c) = (QuotaExhausted d, b)
      \<longleftrightarrow> (in_window cfg t \<and> (browser \<or> launch_ok)
           \<and> int (length (getTodaysMatches t c)) \<ge> DAILY_LIMIT cfg
           \<and> d = fst (windowOf cfg (nextDay t)) - t \<and> b)"
    by (auto simp: main_pass_def Let_def in_window_def split: list.splits option.splits)
  have 2: "in_window cfg t \<and> (browser \<or> launch_ok) \<and> DAILY_LIMIT cfg = 0 \<longrightarrow>
        main_pass cfg t browser launch_ok (CacheJson c)
          = (QuotaExhausted (fst (windowOf cfg (nextDay t)) - t), True)"
    by (auto simp: main_pass_def Let_def in_window_def)
  have 3: "in_window cfg t \<and> \<not> browser \<and> \<not> launch_ok \<longrightarrow>
        main_pass cfg t browser launch_ok (CacheJson c) = (CriticalError, False)"
    by (auto simp: main_pass_def Let_def in_window_def)
  have 4: "fst (windowOf cfg (nextDay t)) = fst (windowOf cfg t) + day_ms"
    by (simp add: windowOf_simps setHours_nextDay)
  from 1 2 3 4 getTodaysMatches_count [of t c] show ?thesis
    by (intro conjI)
qed

theorem quota_exhausted_witness:
  "in_window (sample_config 2 1) 57600000
   \<and> main_pass (sample_config 2 1) 57600000 True True
       (CacheJson \<lparr>matchedLeads = [sample_lead ''b'' 46800 PotentialLead,
                                   sample_lead ''a'' 32400 PotentialLead]\<rparr>)
     = (QuotaExhausted 57600000, True)
   \<and> main_pass (sample_config 0 3) 57600000 False True (CacheJson \<lparr>matchedLeads = []\<rparr>)
     = (QuotaExhausted 57600000, True)
   \<and> main_pass (sample_config 0 3) 57600000 False False (CacheJson \<lparr>matchedLeads = []\<rparr>)
     = (CriticalError, False)"
proof -
  let ?c = "\<lparr>matchedLeads = [sample_lead ''b'' 46800 PotentialLead,
                             sample_lead ''a'' 32400 PotentialLead]\<rparr>"
  have w: "in_window (sample_config 2 1) 57600000" "in_window (sample_config 0 3) 57600000"
    by (simp_all add: in_window_def windowOf_simps sample_config_def setHours_def day_ms_def)
  have g: "length (getTodaysMatches 57600000 ?c) = 2"
    by (simp add: getTodaysMatches_def matchedDate_today_def sample_lead_def setHours_def
                  nextDay_def day_ms_def)
  have s: "fst (windowOf (sample_config 2 1) (nextDay 57600000)) - 57600000 = 57600000"
          "fst (windowOf (sample_config 0 3) (nextDay 57600000)) - 57600000 = 57600000"
    by (simp_all add: windowOf_simps sample_config_def setHours_def nextDay_def day_ms_def)
  have l: "DAILY_LIMIT (sample_config 2 1) = 2" "DAILY_LIMIT (sample_config 0 3) = 0"
    by (simp_all add: sample_config_def)
  have a: "main_pass (sample_config 2 1) 57600000 True True (CacheJson ?c)
             = (QuotaExhausted 57600000, True)"
    using quota_exhausted [of "sample_config 2 1" 57600000 True True ?c 57600000 True] w g s l
    by simp
  have b: "main_pass (sample_config 0 3) 57600000 False True (CacheJson \<lparr>matchedLeads = []\<rparr>)
             = (QuotaExhausted 57600000, True)"
    using quota_exhausted [of "sample_config 0 3" 57600000 False True "\<lparr>matchedLeads = []\<rparr>"] w s l
    by simp
  have c: "main_pass (sample_config 0 3) 57600000 False False (CacheJson \<lparr>matchedLeads = []\<rparr>)
             = (CriticalError, False)"
    using quota_exhausted [of "sample_config 0 3" 57600000 False False "\<lparr>matchedLeads = []\<rparr>"] w
    by simp
  from w(1) a b c show ?thesis by simp
qed

text \<open>
  The claim has every pass inside the window with a daily limit of zero end in the
  sleep of the exhausted quota. At 16:00, with no browser held and a launch that fails,
  the pass ends in the outer \<open>catch\<close>.
\<close>

theorem quota_launch_counterexample:
  "in_window (sample_config 0 3) 57600000
   \<and> DAILY_LIMIT (sample_config 0 3) = 0
   \<and> int (length (getTodaysMatches 57600000 \<lparr>matchedLeads = []\<rparr>))
        \<ge> DAILY_LIMIT (sample_config 0 3)
   \<and> main_pass (sample_config 0 3) 57600000 False False (CacheJson \<lparr>matchedLeads = []\<rparr>)
       = (CriticalError, False)"
  by code_simp

text \<open>
  Claim C7, as the code has it. A pass on a loaded cache ends outside the window exactly
  when the instant is before the start or after the end of today's window. The start
  and the end themselves are inside: the window is the closed interval.
\<close>

theorem outside_window_iff:
  "(\<exists>d. fst (main_pass cfg t browser launch_ok (CacheJson c)) = OutsideWindow d)
     \<longleftrightarrow> (t < fst (windowOf cfg t) \<or> t > snd (windowOf cfg t))"
  by (auto simp: main_pass_def Let_def split: list.splits option.splits)

theorem outside_window_iff_witness:
  "(\<exists>d. fst (main_pass (sample_config 6 3) 64801000 True True (CacheJson \<lparr>matchedLeads = []\<rparr>))
          = OutsideWindow d)
   \<and> (64801000 > snd (windowOf (sample_config 6 3) 64801000))
   \<and> \<not> (\<exists>d. fst (main_pass (sample_config 6 3) 28800000 True True (CacheJson \<lparr>matchedLeads = []\<rparr>))
          = OutsideWindow d)
   \<and> \<not> (\<exists>d. fst (main_pass (sample_config 6 3) 64800000 True True (CacheJson \<lparr>matchedLeads = []\<rparr>))
          = OutsideWindow d)"
proof -
  have w: "windowOf (sample_config 6 3) 64801000 = (28800000, 64800000)"
          "windowOf (sample_config 6 3) 64800000 = (28800000, 64800000)"
          "windowOf (sample_config 6 3) 28800000 = (28800000, 64800000)"
    by (simp_all add: windowOf_def getWindowTimes_def sample_config_def setHours_def day_ms_def)
  show ?thesis
    using outside_window_iff [of "sample_config 6 3" 64801000 True True "\<lparr>matchedLeads = []\<rparr>"]
          outside_window_iff [of "sample_config 6 3" 28800000 True True "\<lparr>matchedLeads = []\<rparr>"]
          outside_window_iff [of "sample_config 6 3" 64800000 True True "\<lparr>matchedLeads = []\<rparr>"]
    by (simp add: w)
qed

text \<open>
  The claim puts the end of the window outside. At 18:00:00.000, the end of the window
  08:00 to 18:00, the pass on an empty ledger runs a cycle.
\<close>

theorem window_end_inside_counterexample:
  "snd (windowOf (sample_config 6 3) 64800000) = 64800000
   \<and> main_pass (sample_config 6 3) 64800000 True True (CacheJson \<lparr>matchedLeads = []\<rparr>)
       = (Active, True)"
  by (simp add: main_pass_def windowOf_def getWindowTimes_def sample_config_def setHours_def
                day_ms_def getTodaysMatches_def)

lemma filter_update_length:
  "i < length xs \<Longrightarrow> P (xs ! i) \<Longrightarrow> \<not> P y \<Longrightarrow>
   length (filter P (xs[i := y])) + 1 = length (filter P xs)"
proof (induction xs arbitrary: i)
  case Nil
  then show ?case by simp
next
  case (Cons x xs)
  show ?case
  proof (cases i)
    case 0
    with Cons.prems show ?thesis by simp
  next
    case (Suc k)
    with Cons.prems Cons.IH [of k] show ?thesis by simp
  qed
qed

lemma getTodaysMatches_same_day:
  "setHours t2 0 0 = setHours t 0 0 \<Longrightarrow> getTodaysMatches t2 c = getTodaysMatches t c"
  by (simp add: getTodaysMatches_count)

lemma transition_count:
  assumes "findIndex (\<lambda>l. lead_id l = s_id a) (matchedLeads (cache st)) = Some i"
    and "matchedDate_today t (matchedLeads (cache st) ! i)"
    and "s_status a = Some AlreadyWaitlisted"
  shows "\<exists>st'. process_article env a st = Inr st'
           \<and> currentStatus (matchedLeads (cache st') ! i) = TransitionedToWaitlisted
           \<and> int (length (getTodaysMatches t (cache st')))
               = int (length (getTodaysMatches t (cache st))) - 1"
proof -
  let ?leads = "matchedLeads (cache st)"
  let ?new = "(?leads ! i)\<lparr>currentStatus := TransitionedToWaitlisted,
                 statusHistory := statusHistory (?leads ! i)
                   @ [\<lparr>datetime_changed = toISOString (now env),
                       new_status = TransitionedToWaitlisted\<rparr>]\<rparr>"
  from findIndex_Some [OF assms(1)] have i: "i < length ?leads" by simp
  from assms(2) have p: "currentStatus (?leads ! i) = PotentialLead"
    by (auto simp: matchedDate_today_def Let_def split: option.splits)
  have n: "\<not> matchedDate_today t ?new"
    by (auto simp: matchedDate_today_def Let_def split: option.splits)
  from filter_update_length [of i ?leads "matchedDate_today t" ?new, OF i assms(2) n]
  have "int (length (filter (matchedDate_today t) (?leads[i := ?new])))
          = int (length (filter (matchedDate_today t) ?leads)) - 1"
    by linarith
  with assms(1,3) p i show ?thesis
    by (simp add: process_article_def Let_def getTodaysMatches_def)
qed

lemma main_pass_at_limit:
  "in_window cfg t \<Longrightarrow> browser \<or> launch_ok \<Longrightarrow>
   DAILY_LIMIT cfg \<le> int (length (getTodaysMatches t c)) \<Longrightarrow>
   main_pass cfg t browser launch_ok (CacheJson c)
     = (QuotaExhausted (fst (windowOf cfg (nextDay t)) - t), True)"
  by (auto simp: main_pass_def Let_def in_window_def)

lemma main_pass_below_limits:
  "in_window cfg t \<Longrightarrow> browser \<or> launch_ok \<Longrightarrow>
   int (length (getTodaysMatches t c)) < DAILY_LIMIT cfg \<Longrightarrow>
   int (length (getTodaysMatches t c)) \<noteq> MORNING_LIMIT cfg \<Longrightarrow>
   main_pass cfg t browser launch_ok (CacheJson c) = (Active, True)"
  by (auto simp: main_pass_def Let_def in_window_def)

lemma main_pass_not_quota:
  "int (length (getTodaysMatches t c)) < DAILY_LIMIT cfg \<Longrightarrow>
   fst (main_pass cfg t browser launch_ok (CacheJson c)) \<noteq> QuotaExhausted d"
  by (auto simp: main_pass_def Let_def split: list.splits option.splits)

lemma main_pass_not_morning:
  "int (length (getTodaysMatches t c)) \<noteq> MORNING_LIMIT cfg \<Longrightarrow>
   fst (main_pass cfg t browser launch_ok (CacheJson c)) \<noteq> MorningPause d"
  by (auto simp: main_pass_def Let_def split: list.splits option.splits)

text \<open>
  Claim C10. When the lead found for a scraped article with the waitlist marker is one
  of today's matches, the pass takes it out of them: today's count drops by one. So a
  pass of the loop on the same day that slept on a count equal to the daily limit
  before the transition no longer does so after it, and runs a cycle unless the morning
  limit is the daily limit less one; and a count equal to the morning limit before the
  transition gives no morning pause after it.
\<close>

theorem transition_frees_quota:
  assumes "findIndex (\<lambda>l. lead_id l = s_id a) (matchedLeads (cache st)) = Some i"
    and "matchedDate_today t (matchedLeads (cache st) ! i)"
    and "s_status a = Some AlreadyWaitlisted"
  shows "\<exists>st'. process_article env a st = Inr st'
           \<and> int (length (getTodaysMatches t (cache st')))
               = int (length (getTodaysMatches t (cache st))) - 1
           \<and> (\<forall>cfg t2 browser launch_ok.
                 setHours t2 0 0 = setHours t 0 0 \<and> in_window cfg t2 \<and> (browser \<or> launch_ok)
                 \<and> int (length (getTodaysMatches t (cache st))) = DAILY_LIMIT cfg
                 \<longrightarrow> (\<exists>d. main_pass cfg t2 browser launch_ok (CacheJson (cache st))
                            = (QuotaExhausted d, True))
                   \<and> (\<forall>d. fst (main_pass cfg t2 browser launch_ok (CacheJson (cache st')))
                            \<noteq> QuotaExhausted d)
                   \<and> (MORNING_LIMIT cfg \<noteq> DAILY_LIMIT cfg - 1 \<longrightarrow>
                        main_pass cfg t2 browser launch_ok (CacheJson (cache st'))
                          = (Active, True)))
           \<and> (\<forall>cfg t2 browser launch_ok.
                 setHours t2 0 0 = setHours t 0 0
                 \<and> int (length (getTodaysMatches t (cache st))) = MORNING_LIMIT cfg
                 \<longrightarrow> (\<forall>d. fst (main_pass cfg t2 browser launch_ok (CacheJson (cache st')))
                            \<noteq> MorningPause d))"
proof -
  from transition_count [OF assms, of env] obtain st' where
    st': "process_article env a st = Inr st'"
         "int (length (getTodaysMatches t (cache st')))
            = int (length (getTodaysMatches t (cache st))) - 1"
    by blast
  have same: "getTodaysMatches t2 c = getTodaysMatches t c"
    if "setHours t2 0 0 = setHours t 0 0" for t2 c
    using that by (rule getTodaysMatches_same_day)
  show ?thesis
  proof (rule exI [of _ st'], intro conjI allI impI, goal_cases)
    case 1
    show ?case by (rule st'(1))
  next
    case 2
    show ?case by (rule st'(2))
  next
    case (3 cfg t2 browser launch_ok)
    then have h: "setHours t2 0 0 = setHours t 0 0" "in_window cfg t2" "browser \<or> launch_ok"
      "int (length (getTodaysMatches t (cache st))) = DAILY_LIMIT cfg"
      by simp_all
    have "DAILY_LIMIT cfg \<le> int (length (getTodaysMatches t2 (cache st)))"
      using same [OF h(1)] h(4) by simp
    from main_pass_at_limit [OF h(2) h(3) this] show ?case by (rule exI)
  next
    case (4 cfg t2 browser launch_ok d)
    then have h: "setHours t2 0 0 = setHours t 0 0"
      "int (length (getTodaysMatches t (cache st))) = DAILY_LIMIT cfg"
      by simp_all
    have "int (length (getTodaysMatches t2 (cache st'))) < DAILY_LIMIT cfg"
      using same [OF h(1)] h(2) st'(2) by simp
    from main_pass_not_quota [OF this] show ?case .
  next
    case (5 cfg t2 browser launch_ok)
    then have h: "setHours t2 0 0 = setHours t 0 0" "in_window cfg t2" "browser \<or> launch_ok"
      "int (length (getTodaysMatches t (cache st))) = DAILY_LIMIT cfg"
      "MORNING_LIMIT cfg \<noteq> DAILY_LIMIT cfg - 1"
      by simp_all
    have a: "int (length (getTodaysMatches t2 (cache st'))) < DAILY_LIMIT cfg"
      using same [OF h(1)] h(4) st'(2) by simp
    have b: "int (length (getTodaysMatches t2 (cache st'))) \<noteq> MORNING_LIMIT cfg"
      using same [OF h(1)] h(4) h(5) st'(2) by simp
    from main_pass_below_limits [OF h(2) h(3) a b] show ?case .
  next
    case (6 cfg t2 browser launch_ok d)
    then have h: "setHours t2 0 0 = setHours t 0 0"
      "int (length (getTodaysMatches t (cache st))) = MORNING_LIMIT cfg"
      by simp_all
    have "int (length (getTodaysMatches t2 (cache st'))) \<noteq> MORNING_LIMIT cfg"
      using same [OF h(1)] h(2) st'(2) by simp
    from main_pass_not_morning [OF this] show ?case .
  qed
qed

theorem transition_frees_quota_witness:
  "main_pass (sample_config 2 0) 50400000 True True
     (CacheJson (cache (start_state [sample_lead ''b'' 46800 PotentialLead,
                                     sample_lead ''a'' 32400 PotentialLead])))
     = (QuotaExhausted 64800000, True)
   \<and> (\<exists>st'. process_article (sample_env 50400000) (sample_scraped ''a'' (Some AlreadyWaitlisted))
               (start_state [sample_lead ''b'' 46800 PotentialLead,
                             sample_lead ''a'' 32400 PotentialLead]) = Inr st'
         \<and> int (length (getTodaysMatches 50400000 (cache st'))) = 1
         \<and> main_pass (sample_config 2 0) 50460000 True True (CacheJson (cache st'))
             = (Active, True))"
proof -
  let ?st = "start_state [sample_lead ''b'' 46800 PotentialLead,
                          sample_lead ''a'' 32400 PotentialLead]"
  let ?a = "sample_scraped ''a'' (Some AlreadyWaitlisted)"
  have f: "findIndex (\<lambda>l. lead_id l = s_id ?a) (matchedLeads (cache ?st)) = Some 1"
    by (simp add: start_state_def sample_lead_def sample_scraped_def)
  have today: "matchedDate_today 50400000 (matchedLeads (cache ?st) ! 1)"
    by (simp add: start_state_def sample_lead_def matchedDate_today_def setHours_def
                  nextDay_def day_ms_def)
  have status: "s_status ?a = Some AlreadyWaitlisted"
    by (simp add: sample_scraped_def)
  have count: "int (length (getTodaysMatches 50400000 (cache ?st))) = 2"
    by (simp add: getTodaysMatches_def start_state_def sample_lead_def matchedDate_today_def
                  setHours_def nextDay_def day_ms_def)
  have day: "setHours 50460000 0 0 = setHours 50400000 0 0"
    by (simp add: setHours_def day_ms_def)
  have w: "in_window (sample_config 2 0) 50460000"
    by (simp add: in_window_def windowOf_def getWindowTimes_def sample_config_def
                  setHours_def day_ms_def)
  have l: "DAILY_LIMIT (sample_config 2 0) = 2" "MORNING_LIMIT (sample_config 2 0) = 0"
    by (simp_all add: sample_config_def)
  have before: "main_pass (sample_config 2 0) 50400000 True True (CacheJson (cache ?st))
                  = (QuotaExhausted 64800000, True)"
    by code_simp
  from transition_frees_quota [OF f today status, of "sample_env 50400000"]
  obtain st' where
    st': "process_article (sample_env 50400000) ?a ?st = Inr st'"
         "int (length (getTodaysMatches 50400000 (cache st')))
            = int (length (getTodaysMatches 50400000 (cache ?st))) - 1"
    and q: "\<forall>cfg t2 browser launch_ok.
              setHours t2 0 0 = setHours 50400000 0 0 \<and> in_window cfg t2
              \<and> (browser \<or> launch_ok)
              \<and> int (length (getTodaysMatches 50400000 (cache ?st))) = DAILY_LIMIT cfg
              \<longrightarrow> (\<exists>d. main_pass cfg t2 browser launch_ok (CacheJson (cache ?st))
                         = (QuotaExhausted d, True))
                \<and> (\<forall>d. fst (main_pass cfg t2 browser launch_ok (CacheJson (cache st')))
                         \<noteq> QuotaExhausted d)
                \<and> (MORNING_LIMIT cfg \<noteq> DAILY_LIMIT cfg - 1 \<longrightarrow>
                     main_pass cfg t2 browser launch_ok (CacheJson (cache st'))
                       = (Active, True))"
    apply (elim exE conjE)
    apply (rule that)
      apply assumption+
    done
  from q [rule_format, of 50460000 "sample_config 2 0" True True] day w count l
  have "main_pass (sample_config 2 0) 50460000 True True (CacheJson (cache st')) = (Active, True)"
    by simp
  with st' count before show ?thesis by simp
qed

section \<open>Properties of the cache file\<close>

text \<open>
  Claim C8. When the cache file is absent, holds only white space or holds a text that
  \<open>JSON.parse\<close> rejects, \<open>initializeCache\<close> returns the empty cache, a value and no
  exception, and writes the empty cache to the file: a file that can be written then
  holds the empty document, and one that cannot stays as it was, the failure being
  caught inside \<open>writeCache\<close>.
\<close>

theorem initializeCache_recovers:
  assumes "file_text file = None
           \<or> (\<exists>data. file_text file = Some data \<and> (trim data = [] \<or> parse data = None))"
  shows "initializeCache parse stringify file
           = (CacheJson \<lparr>matchedLeads = []\<rparr>, writeCache stringify file \<lparr>matchedLeads = []\<rparr>)
         \<and> (writable file \<longrightarrow>
              file_text (snd (initializeCache parse stringify file))
                = Some (stringify \<lparr>matchedLeads = []\<rparr>))
         \<and> (\<not> writable file \<longrightarrow> snd (initializeCache parse stringify file) = file)"
  using assms
  by (auto simp: initializeCache_def writeCache_def Let_def split: option.splits)

theorem initializeCache_recovers_witness:
  "initializeCache (\<lambda>data. if data = ''{matchedLeads:[]}'' then Some (CacheJson \<lparr>matchedLeads = []\<rparr>) else None)
     (\<lambda>c. ''{matchedLeads:[]}'') \<lparr>file_text = Some '' '', writable = True\<rparr>
    = (CacheJson \<lparr>matchedLeads = []\<rparr>,
       \<lparr>file_text = Some ''{matchedLeads:[]}'', writable = True\<rparr>)
   \<and> initializeCache (\<lambda>data. if data = ''{matchedLeads:[]}'' then Some (CacheJson \<lparr>matchedLeads = []\<rparr>) else None)
     (\<lambda>c. ''{matchedLeads:[]}'') \<lparr>file_text = Some ''{oops'', writable = True\<rparr>
    = (CacheJson \<lparr>matchedLeads = []\<rparr>,
       \<lparr>file_text = Some ''{matchedLeads:[]}'', writable = True\<rparr>)
   \<and> initializeCache (\<lambda>data. if data = ''{matchedLeads:[]}'' then Some (CacheJson \<lparr>matchedLeads = []\<rparr>) else None)
     (\<lambda>c. ''{matchedLeads:[]}'') \<lparr>file_text = None, writable = False\<rparr>
    = (CacheJson \<lparr>matchedLeads = []\<rparr>, \<lparr>file_text = None, writable = False\<rparr>)"
proof -
  let ?parse = "\<lambda>data. if data = ''{matchedLeads:[]}''
                       then Some (CacheJson \<lparr>matchedLeads = []\<rparr>) else None"
  let ?stringify = "\<lambda>c :: Cache. ''{matchedLeads:[]}''"
  have blank: "file_text \<lparr>file_text = Some '' '', writable = True\<rparr> = None
        \<or> (\<exists>data. file_text \<lparr>file_text = Some '' '', writable = True\<rparr> = Some data
               \<and> (trim data = [] \<or> ?parse data = None))"
    by (simp add: trim_def is_space_def)
  have bad: "file_text \<lparr>file_text = Some ''{oops'', writable = True\<rparr> = None
        \<or> (\<exists>data. file_text \<lparr>file_text = Some ''{oops'', writable = True\<rparr> = Some data
               \<and> (trim data = [] \<or> ?parse data = None))"
    by simp
  have absent: "file_text \<lparr>file_text = None, writable = False\<rparr> = None
        \<or> (\<exists>data. file_text \<lparr>file_text = None, writable = False\<rparr> = Some data
               \<and> (trim data = [] \<or> ?parse data = None))"
    by simp
  show ?thesis
    using initializeCache_recovers [OF blank, of ?stringify]
          initializeCache_recovers [OF bad, of ?stringify]
          initializeCache_recovers [OF absent, of ?stringify]
    by (simp add: writeCache_def)
qed

end
